theory Spec2Isabelle
  imports Complex_Main
begin

section \<open>Strings\<close>

text \<open>
  Strings are character lists. The three string operations the classifier uses are
  \<^verbatim>\<open>String.prototype.includes\<close> (substring test), \<^verbatim>\<open>toLowerCase\<close> and the decimal
  rendering of a number inside a template literal. \<open>toLowerCase\<close> is modelled on the
  ASCII letters; every keyword the classifier looks for is ASCII.
\<close>

fun startsWith :: "string \<Rightarrow> string \<Rightarrow> bool" where
  "startsWith s [] = True"
| "startsWith [] (c # cs) = False"
| "startsWith (x # xs) (c # cs) = (x = c \<and> startsWith xs cs)"

fun includes_str :: "string \<Rightarrow> string \<Rightarrow> bool" where
  "includes_str [] t = startsWith [] t"
| "includes_str (x # xs) t = (startsWith (x # xs) t \<or> includes_str xs t)"

definition lowerChar :: "char \<Rightarrow> char" where
  "lowerChar c =
     (let n = (of_char c :: nat)
      in if 65 \<le> n \<and> n \<le> 90 then char_of (n + 32) else c)"

definition toLowerCase :: "string \<Rightarrow> string" where
  "toLowerCase s = map lowerChar s"

definition digitChar :: "nat \<Rightarrow> char" where
  "digitChar d = char_of (48 + d)"

fun showNat :: "nat \<Rightarrow> string" where
  "showNat n = (if n < 10 then [digitChar n] else showNat (n div 10) @ [digitChar (n mod 10)])"

declare showNat.simps [simp del]

section \<open>Data model\<close>

text \<open>
  \<open>Message\<close> is the row type of the \<open>messages\<close> table of \<^verbatim>\<open>shared/schema.ts\<close>.
  A timestamp is carried as its ISO-8601 text, which is what the export writes for it.
  The \<open>jsonb\<close> column is carried as a JSON value.
\<close>

datatype json =
    JNull
  | JBool bool
  | JNum int
  | JStr string
  | JArr "json list"
  | JObj "(string \<times> json) list"

record Message =
  id_m :: string
  sessionId :: string
  role :: string
  content :: string
  topologyImpact :: "string option"
  metadata :: json
  createdAt :: string

record Structure =
  procedural :: "string list"
  perspectival :: "string list"
  participatory :: string

record TopologyPattern =
  pattern :: string
  order :: nat
  threads :: nat
  complexity :: string
  primeFactors :: "string list"
  "structure" :: Structure
  nestingDepth :: nat

text \<open>
  \<open>ThreadAnalysis\<close> has fields named like those of \<open>TopologyPattern\<close>; its fields
  carry the prefix \<open>ta_\<close> here.
\<close>

record ThreadAnalysis =
  ta_order :: nat
  ta_threads :: nat
  ta_nestingDepth :: nat
  ta_branchingPoints :: nat
  ta_closureAttempts :: nat

section \<open>The classifier\<close>

definition createEmptyTopology :: TopologyPattern where
  "createEmptyTopology =
     \<lparr> pattern = ''s0={}'',
       order = 0,
       threads = 0,
       complexity = ''empty'',
       primeFactors = [],
       structure = \<lparr> procedural = [], perspectival = [], participatory = ''s0'' \<rparr>,
       nestingDepth = 0 \<rparr>"

definition isBranching :: "Message \<Rightarrow> bool" where
  "isBranching message \<longleftrightarrow>
     includes_str (content message) ''?'' \<or>
     includes_str (toLowerCase (content message)) ''what'' \<or>
     includes_str (toLowerCase (content message)) ''how''"

definition isClosure :: "Message \<Rightarrow> bool" where
  "isClosure message \<longleftrightarrow>
     includes_str (toLowerCase (content message)) ''conclusion'' \<or>
     includes_str (toLowerCase (content message)) ''summary'' \<or>
     topologyImpact message = Some ''closure_attempt''"

text \<open>
  The \<^verbatim>\<open>for (const message of messages)\<close> loop of \<open>analyzeThreads\<close>, with its two
  counters as the loop state.
\<close>

fun countSignals :: "Message list \<Rightarrow> nat \<times> nat \<Rightarrow> nat \<times> nat" where
  "countSignals [] (branchingPoints, closureAttempts) = (branchingPoints, closureAttempts)"
| "countSignals (message # rest) (branchingPoints, closureAttempts) =
     countSignals rest
       (if isBranching message then branchingPoints + 1 else branchingPoints,
        if isClosure message then closureAttempts + 1 else closureAttempts)"

text \<open>
  The three successive assignments to \<open>order\<close> in \<open>analyzeThreads\<close>: a later
  assignment overwrites an earlier one.
\<close>

definition determineOrder :: "nat \<Rightarrow> nat \<Rightarrow> nat" where
  "determineOrder messageCount branchingPoints =
     (let order0 = 1;
          order1 = (if messageCount > 3 then 2 else order0);
          order2 = (if messageCount > 8 \<or> branchingPoints > 2 then 3 else order1);
          order3 = (if messageCount > 15 \<or> branchingPoints > 4 then 4 else order2)
      in order3)"

text \<open>
  The counters are array-bounded natural numbers, on which the floating-point
  quotient by two is exact: \<^verbatim>\<open>Math.ceil(b / 2)\<close> is \<open>(b + 1) div 2\<close> and
  \<^verbatim>\<open>Math.floor(b / 2)\<close> is \<open>b div 2\<close> (lemmas \<open>ceilHalf_real\<close>, \<open>floorHalf_real\<close>).
\<close>

definition ceilHalf :: "nat \<Rightarrow> nat" where
  "ceilHalf b = (b + 1) div 2"

definition floorHalf :: "nat \<Rightarrow> nat" where
  "floorHalf b = b div 2"

definition analyzeThreads :: "Message list \<Rightarrow> ThreadAnalysis" where
  "analyzeThreads messages =
     (let messageCount = length messages;
          (branchingPoints, closureAttempts) = countSignals messages (0, 0);
          order = determineOrder messageCount branchingPoints;
          threads = max 1 (min (order + 1) (ceilHalf branchingPoints + 1));
          nestingDepth = min 4 (max 1 (floorHalf branchingPoints + 1))
      in \<lparr> ta_order = order,
           ta_threads = threads,
           ta_nestingDepth = nestingDepth,
           ta_branchingPoints = branchingPoints,
           ta_closureAttempts = closureAttempts \<rparr>)"

definition determineComplexity :: "ThreadAnalysis \<Rightarrow> string" where
  "determineComplexity analysis =
     (if ta_order analysis = 1 then ''monologue''
      else if ta_order analysis = 2 then ''dialogue''
      else if ta_order analysis = 3 then ''complex_dialogue''
      else ''multi_threaded_discourse'')"

text \<open>The wrapping loop of \<open>generateNestedPattern\<close>, from \<open>i\<close> up to \<open>depth\<close>.\<close>

function wrapLoop :: "nat \<Rightarrow> nat \<Rightarrow> string \<Rightarrow> string" where
  "wrapLoop i depth p = (if i < depth then wrapLoop (i + 1) depth (''('' @ p @ '')'') else p)"
  by pat_completeness auto
termination
  by (relation "measure (\<lambda>(i, depth, p). depth - i)") auto

declare wrapLoop.simps [simp del]

definition generateNestedPattern :: "nat \<Rightarrow> string" where
  "generateNestedPattern depth = (if depth \<le> 1 then ''()'' else wrapLoop 1 depth ''()'')"

text \<open>\<^verbatim>\<open>Array(n).fill(s).join("")\<close>: \<open>n\<close> copies of \<open>s\<close>, concatenated.\<close>

definition fillJoin :: "nat \<Rightarrow> string \<Rightarrow> string" where
  "fillJoin n s = concat (replicate n s)"

definition generatePattern :: "ThreadAnalysis \<Rightarrow> string" where
  "generatePattern analysis =
     (if ta_order analysis = 1 then ''s1={[()]}''
      else
        (let procedural = fillJoin (ta_threads analysis) ''()'';
             perspectival = generateNestedPattern (ta_nestingDepth analysis)
         in ''s'' @ showNat (ta_order analysis) @ ''={['' @ procedural @ ''],[('' @
            perspectival @ '')]}''))"

definition calculatePrimeFactors :: "ThreadAnalysis \<Rightarrow> string list" where
  "calculatePrimeFactors analysis =
     (let factors0 = [];
          factors1 = (if ta_threads analysis \<ge> 2 then factors0 @ [''p1p1''] else factors0);
          factors2 = (if ta_order analysis \<ge> 2 then factors1 @ [''p2''] else factors1);
          factors3 = (if ta_order analysis \<ge> 3 then factors2 @ [''p3''] else factors2);
          factors4 = (if ta_nestingDepth analysis > 2 then factors3 @ [''p5''] else factors3)
      in if length factors4 > 0 then factors4 else [''p1''])"

text \<open>
  \<open>buildStructure\<close> pushes \<open>()\<close> once per thread, then the base level and, above
  depth one, the nested pattern one level shallower.
\<close>

definition buildStructure :: "ThreadAnalysis \<Rightarrow> Structure" where
  "buildStructure analysis =
     \<lparr> procedural = replicate (ta_threads analysis) ''()'',
       perspectival =
         (if ta_nestingDepth analysis > 1
          then [''()'', generateNestedPattern (ta_nestingDepth analysis - 1)]
          else [''()'']),
       participatory = ''s'' @ showNat (ta_order analysis) \<rparr>"

text \<open>
  \<open>calculateTopology\<close> also filters the messages by role into two lists that it
  never reads; they have no counterpart here.
\<close>

definition calculateTopology :: "Message list \<Rightarrow> TopologyPattern" where
  "calculateTopology messages =
     (let messageCount = length messages
      in if messageCount = 0 then createEmptyTopology
         else
           (let threadAnalysis = analyzeThreads messages
            in \<lparr> pattern = generatePattern threadAnalysis,
                 order = ta_order threadAnalysis,
                 threads = ta_threads threadAnalysis,
                 complexity = determineComplexity threadAnalysis,
                 primeFactors = calculatePrimeFactors threadAnalysis,
                 structure = buildStructure threadAnalysis,
                 nestingDepth = ta_nestingDepth threadAnalysis \<rparr>))"

section \<open>The rendering rules as the specification words them\<close>

text \<open>
  \<open>nested_spec\<close>: depth at most one gives \<open>()\<close>; otherwise start from \<open>()\<close> and wrap
  it in parentheses \<open>depth - 1\<close> further times.
  \<open>render_spec\<close> has the three cases of the specification, in its order: the empty
  case, whose result reports order zero, renders the fixed string \<open>s0={}\<close>; non-empty
  with order one renders the fixed string \<open>s1={[()]}\<close>; non-empty with order above one
  renders the template with \<open>()\<close> repeated \<open>threads\<close> times and
  \<open>nested_spec nestingDepth\<close>.
\<close>

definition wrap_spec :: "string \<Rightarrow> string" where
  "wrap_spec p = ''('' @ p @ '')''"

definition nested_spec :: "nat \<Rightarrow> string" where
  "nested_spec depth = (if depth \<le> 1 then ''()'' else (wrap_spec ^^ (depth - 1)) ''()'')"

definition render_spec :: "nat \<Rightarrow> nat \<Rightarrow> nat \<Rightarrow> string" where
  "render_spec ord thr depth =
     (if ord = 0 then ''s0={}''
      else if ord = 1 then ''s1={[()]}''
      else ''s'' @ showNat ord @ ''={['' @ concat (replicate thr ''()'') @ ''],[('' @
           nested_spec depth @ '')]}'')"

section \<open>JSON text\<close>

text \<open>
  \<open>exportSessionToJson\<close> ends in \<^verbatim>\<open>JSON.stringify(sessionData, null, 2)\<close>. The
  serializer follows the algorithm of the language standard with the two-space gap:
  strings are quoted with the standard escapes, an empty array or object is \<open>[]\<close> or
  \<open>{}\<close>, a non-empty one puts every element on a line of its own, indented one level
  deeper, and a member is its quoted key, a colon, a space and its value.
  Numbers are the integers (every number the export writes itself is a count).
\<close>

definition showInt :: "int \<Rightarrow> string" where
  "showInt i = (if i < 0 then ''-'' @ showNat (nat (- i)) else showNat (nat i))"

definition hexDigit :: "nat \<Rightarrow> char" where
  "hexDigit d = (if d < 10 then char_of (48 + d) else char_of (87 + d))"

definition quoteChar :: "char \<Rightarrow> string" where
  "quoteChar c =
     (if c = CHR 0x22 then [CHR 0x5C, CHR 0x22]
      else if c = CHR 0x5C then [CHR 0x5C, CHR 0x5C]
      else if c = CHR 0x08 then [CHR 0x5C, CHR ''b'']
      else if c = CHR 0x0C then [CHR 0x5C, CHR ''f'']
      else if c = CHR 0x0A then [CHR 0x5C, CHR ''n'']
      else if c = CHR 0x0D then [CHR 0x5C, CHR ''r'']
      else if c = CHR 0x09 then [CHR 0x5C, CHR ''t'']
      else if (of_char c :: nat) < 32
        then [CHR 0x5C, CHR ''u'', CHR ''0'', CHR ''0'',
              hexDigit ((of_char c :: nat) div 16), hexDigit ((of_char c :: nat) mod 16)]
      else [c])"

definition quoteJSONString :: "string \<Rightarrow> string" where
  "quoteJSONString s = [CHR 0x22] @ concat (map quoteChar s) @ [CHR 0x22]"

fun joinWith :: "string \<Rightarrow> string list \<Rightarrow> string" where
  "joinWith sep [] = []"
| "joinWith sep [x] = x"
| "joinWith sep (x # y # ys) = x @ sep @ joinWith sep (y # ys)"

definition indentStr :: "nat \<Rightarrow> string" where
  "indentStr level = replicate (2 * level) CHR '' ''"

fun serializeJSON :: "nat \<Rightarrow> json \<Rightarrow> string"
  and serializeItems :: "nat \<Rightarrow> json list \<Rightarrow> string list"
  and serializeMembers :: "nat \<Rightarrow> (string \<times> json) list \<Rightarrow> string list" where
  "serializeJSON level JNull = ''null''"
| "serializeJSON level (JBool b) = (if b then ''true'' else ''false'')"
| "serializeJSON level (JNum i) = showInt i"
| "serializeJSON level (JStr s) = quoteJSONString s"
| "serializeJSON level (JArr vs) =
     (if vs = [] then ''[]''
      else ''['' @ [CHR 0x0A] @ indentStr (level + 1) @
           joinWith ('','' @ [CHR 0x0A] @ indentStr (level + 1)) (serializeItems (level + 1) vs) @
           [CHR 0x0A] @ indentStr level @ '']'')"
| "serializeJSON level (JObj kvs) =
     (if kvs = [] then ''{}''
      else ''{'' @ [CHR 0x0A] @ indentStr (level + 1) @
           joinWith ('','' @ [CHR 0x0A] @ indentStr (level + 1)) (serializeMembers (level + 1) kvs) @
           [CHR 0x0A] @ indentStr level @ ''}'')"
| "serializeItems level [] = []"
| "serializeItems level (v # vs) = serializeJSON level v # serializeItems level vs"
| "serializeMembers level [] = []"
| "serializeMembers level ((k, v) # kvs) =
     (quoteJSONString k @ '': '' @ serializeJSON level v) # serializeMembers level kvs"

definition JSON_stringify :: "json \<Rightarrow> string" where
  "JSON_stringify v = serializeJSON 0 v"


text \<open>
  Reading the text back: a recursive-descent reader of JSON text with integer numerals,
  the standard whitespace and string escapes (\<open>\u\<close> escapes below 128). The three
  mutually recursive readers take the remaining input and a bound on the number of
  nested calls; \<open>JSON_parse\<close> starts them with a bound above the length of the text and
  accepts when only whitespace is left.
\<close>

definition isWs :: "char \<Rightarrow> bool" where
  "isWs c \<longleftrightarrow> c = CHR '' '' \<or> c = CHR 0x09 \<or> c = CHR 0x0A \<or> c = CHR 0x0D"

definition skipWs :: "string \<Rightarrow> string" where
  "skipWs s = dropWhile isWs s"

definition isDigit :: "char \<Rightarrow> bool" where
  "isDigit c \<longleftrightarrow> 48 \<le> (of_char c :: nat) \<and> (of_char c :: nat) \<le> 57"

definition digitVal :: "char \<Rightarrow> nat" where
  "digitVal c = of_char c - 48"

definition hexVal :: "char \<Rightarrow> nat option" where
  "hexVal c =
     (let n = (of_char c :: nat)
      in if 48 \<le> n \<and> n \<le> 57 then Some (n - 48)
         else if 97 \<le> n \<and> n \<le> 102 then Some (n - 87)
         else if 65 \<le> n \<and> n \<le> 70 then Some (n - 55)
         else None)"

definition unescape :: "char \<Rightarrow> char option" where
  "unescape e =
     (if e = CHR 0x22 then Some (CHR 0x22)
      else if e = CHR 0x5C then Some (CHR 0x5C)
      else if e = CHR ''/'' then Some (CHR ''/'')
      else if e = CHR ''b'' then Some (CHR 0x08)
      else if e = CHR ''f'' then Some (CHR 0x0C)
      else if e = CHR ''n'' then Some (CHR 0x0A)
      else if e = CHR ''r'' then Some (CHR 0x0D)
      else if e = CHR ''t'' then Some (CHR 0x09)
      else None)"

definition hex4 :: "char \<Rightarrow> char \<Rightarrow> char \<Rightarrow> char \<Rightarrow> nat option" where
  "hex4 a b c d =
     (case (hexVal a, hexVal b, hexVal c, hexVal d) of
        (Some x, Some y, Some z, Some w) \<Rightarrow> Some (((x * 16 + y) * 16 + z) * 16 + w)
      | _ \<Rightarrow> None)"

definition consResult :: "char \<Rightarrow> (string \<times> string) option \<Rightarrow> (string \<times> string) option" where
  "consResult c r = (case r of None \<Rightarrow> None | Some (s, rest) \<Rightarrow> Some (c # s, rest))"

fun parseString :: "string \<Rightarrow> (string \<times> string) option" where
  "parseString [] = None"
| "parseString (c # cs) =
     (if c = CHR 0x22 then Some ([], cs)
      else if c = CHR 0x5C then
        (case cs of
           [] \<Rightarrow> None
         | e # cs1 \<Rightarrow>
             if e = CHR ''u'' then
               (case cs1 of
                  h1 # h2 # h3 # h4 # cs2 \<Rightarrow>
                    (case hex4 h1 h2 h3 h4 of
                       None \<Rightarrow> None
                     | Some n \<Rightarrow> if n < 128 then consResult (char_of n) (parseString cs2) else None)
                | _ \<Rightarrow> None)
             else
               (case unescape e of
                  None \<Rightarrow> None
                | Some ch \<Rightarrow> consResult ch (parseString cs1)))
      else if (of_char c :: nat) < 32 then None
      else consResult c (parseString cs))"


definition readNat :: "string \<Rightarrow> nat" where
  "readNat ds = foldl (\<lambda>a c. 10 * a + digitVal c) 0 ds"

definition parseDigits :: "string \<Rightarrow> (nat \<times> string) option" where
  "parseDigits s =
     (let ds = takeWhile isDigit s; rest = dropWhile isDigit s
      in if ds = [] then None
         else if hd ds = CHR ''0'' \<and> length ds > 1 then None
         else if rest \<noteq> [] \<and> (hd rest = CHR ''.'' \<or> hd rest = CHR ''e'' \<or> hd rest = CHR ''E'') then None
         else Some (readNat ds, rest))"

definition parseNumber :: "string \<Rightarrow> (json \<times> string) option" where
  "parseNumber s =
     (case s of
        [] \<Rightarrow> None
      | c # cs \<Rightarrow>
          if c = CHR ''-'' then
            (case parseDigits cs of None \<Rightarrow> None | Some (n, rest) \<Rightarrow> Some (JNum (- int n), rest))
          else
            (case parseDigits (c # cs) of None \<Rightarrow> None | Some (n, rest) \<Rightarrow> Some (JNum (int n), rest)))"

fun parseValue :: "nat \<Rightarrow> string \<Rightarrow> (json \<times> string) option"
  and parseItems :: "nat \<Rightarrow> string \<Rightarrow> (json list \<times> string) option"
  and parseMembers :: "nat \<Rightarrow> string \<Rightarrow> ((string \<times> json) list \<times> string) option" where
  "parseValue 0 s = None"
| "parseValue (Suc fuel) s =
     (case skipWs s of
        [] \<Rightarrow> None
      | c # cs \<Rightarrow>
          if c = CHR 0x22 then
            (case parseString cs of None \<Rightarrow> None | Some (str, rest) \<Rightarrow> Some (JStr str, rest))
          else if c = CHR ''['' then
            (if startsWith (skipWs cs) '']'' then Some (JArr [], tl (skipWs cs))
             else (case parseItems fuel cs of
                     None \<Rightarrow> None
                   | Some (vs, rest) \<Rightarrow> Some (JArr vs, rest)))
          else if c = CHR ''{'' then
            (if startsWith (skipWs cs) ''}'' then Some (JObj [], tl (skipWs cs))
             else (case parseMembers fuel cs of
                     None \<Rightarrow> None
                   | Some (kvs, rest) \<Rightarrow> Some (JObj kvs, rest)))
          else if startsWith (c # cs) ''null'' then Some (JNull, drop 4 (c # cs))
          else if startsWith (c # cs) ''true'' then Some (JBool True, drop 4 (c # cs))
          else if startsWith (c # cs) ''false'' then Some (JBool False, drop 5 (c # cs))
          else parseNumber (c # cs))"
| "parseItems 0 s = None"
| "parseItems (Suc fuel) s =
     (case parseValue fuel s of
        None \<Rightarrow> None
      | Some (v, rest) \<Rightarrow>
          (case skipWs rest of
             [] \<Rightarrow> None
           | c # rest1 \<Rightarrow>
               if c = CHR '','' then
                 (case parseItems fuel rest1 of
                    None \<Rightarrow> None
                  | Some (vs, rest2) \<Rightarrow> Some (v # vs, rest2))
               else if c = CHR '']'' then Some ([v], rest1)
               else None))"
| "parseMembers 0 s = None"
| "parseMembers (Suc fuel) s =
     (case skipWs s of
        [] \<Rightarrow> None
      | q # cs \<Rightarrow>
          if q \<noteq> CHR 0x22 then None
          else
            (case parseString cs of
               None \<Rightarrow> None
             | Some (k, rest) \<Rightarrow>
                 (case skipWs rest of
                    [] \<Rightarrow> None
                  | colon # rest1 \<Rightarrow>
                      if colon \<noteq> CHR '':'' then None
                      else
                        (case parseValue fuel rest1 of
                           None \<Rightarrow> None
                         | Some (v, rest2) \<Rightarrow>
                             (case skipWs rest2 of
                                [] \<Rightarrow> None
                              | c # rest3 \<Rightarrow>
                                  if c = CHR '','' then
                                    (case parseMembers fuel rest3 of
                                       None \<Rightarrow> None
                                     | Some (kvs, rest4) \<Rightarrow> Some ((k, v) # kvs, rest4))
                                  else if c = CHR ''}'' then Some ([(k, v)], rest3)
                                  else None)))))"

definition JSON_parse :: "string \<Rightarrow> json option" where
  "JSON_parse text =
     (case parseValue (Suc (length text)) text of
        None \<Rightarrow> None
      | Some (v, rest) \<Rightarrow> if skipWs rest = [] then Some v else None)"

declare parseValue.simps [simp del] parseItems.simps [simp del] parseMembers.simps [simp del]

text \<open>
  Two predicates used in the proofs: \<open>numEnd\<close> holds of an input on which a numeral
  ends, \<open>valueStart\<close> of a character that begins a serialized value.
\<close>

definition numEnd :: "string \<Rightarrow> bool" where
  "numEnd rest \<longleftrightarrow>
     (case rest of [] \<Rightarrow> True
      | c # cs \<Rightarrow> \<not> isDigit c \<and> c \<noteq> CHR ''.'' \<and> c \<noteq> CHR ''e'' \<and> c \<noteq> CHR ''E'')"

definition valueStart :: "char \<Rightarrow> bool" where
  "valueStart c \<longleftrightarrow> isDigit c \<or> c \<in> set [CHR ''-'', CHR 0x22, CHR ''['', CHR ''{'', CHR ''n'', CHR ''t'', CHR ''f'']"


section \<open>The exporter\<close>

text \<open>
  \<open>Session\<close> is the row type of the \<open>sessions\<close> table. Its identifier and creation
  time carry the suffix \<open>_s\<close>, the names without it being fields of \<open>Message\<close>.
  The exporter reads the clock (\<^verbatim>\<open>new Date().toISOString()\<close>); the reading is the
  first argument of the model.
\<close>

record Session =
  id_s :: string
  title :: string
  topologyPattern :: string
  topologyOrder :: nat
  threadCount :: nat
  messageCount :: nat
  isActive :: string
  createdAt_s :: string
  updatedAt :: string

definition messageData :: "Message \<Rightarrow> json" where
  "messageData msg =
     JObj [(''id'', JStr (id_m msg)),
           (''role'', JStr (role msg)),
           (''content'', JStr (content msg)),
           (''topology_impact'',
              (case topologyImpact msg of None \<Rightarrow> JNull | Some t \<Rightarrow> JStr t)),
           (''timestamp'', JStr (createdAt msg)),
           (''metadata'', metadata msg)]"

definition topologyData :: "TopologyPattern \<Rightarrow> json" where
  "topologyData topology =
     JObj [(''pattern'', JStr (pattern topology)),
           (''order'', JNum (int (order topology))),
           (''threads'', JNum (int (threads topology))),
           (''complexity'', JStr (complexity topology)),
           (''prime_factors'', JArr (map JStr (primeFactors topology))),
           (''structure'',
              JObj [(''procedural'', JArr (map JStr (procedural (structure topology)))),
                    (''perspectival'', JArr (map JStr (perspectival (structure topology)))),
                    (''participatory'', JStr (participatory (structure topology)))]),
           (''nesting_depth'', JNum (int (nestingDepth topology)))]"

definition sessionData ::
  "string \<Rightarrow> string \<Rightarrow> Session \<Rightarrow> Message list \<Rightarrow> TopologyPattern \<Rightarrow> json" where
  "sessionData now session_id session messages topology =
     JObj [(''session_id'', JStr session_id),
           (''timestamp'', JStr now),
           (''title'', JStr (title session)),
           (''topology'', topologyData topology),
           (''messages'', JArr (map messageData messages)),
           (''metadata'',
              JObj [(''participant_count'', JNum 2),
                    (''ai_model'', JStr ''gpt-4o''),
                    (''total_messages'', JNum (int (length messages))),
                    (''created_at'', JStr (createdAt_s session)),
                    (''updated_at'', JStr (updatedAt session))])]"

definition exportSessionToJson ::
  "string \<Rightarrow> string \<Rightarrow> Session \<Rightarrow> Message list \<Rightarrow> TopologyPattern \<Rightarrow> string" where
  "exportSessionToJson now session_id session messages topology =
     JSON_stringify (sessionData now session_id session messages topology)"

text \<open>
  Reading a parsed document: \<open>field\<close> is property access on an object (of two members
  with one key, the later one counts, as after \<^verbatim>\<open>JSON.parse\<close>); \<open>getPath\<close> follows a
  chain of keys.
\<close>

definition field :: "string \<Rightarrow> json \<Rightarrow> json option" where
  "field k v = (case v of JObj kvs \<Rightarrow> map_of (rev kvs) k | _ \<Rightarrow> None)"

fun getPath :: "string list \<Rightarrow> json \<Rightarrow> json option" where
  "getPath [] v = Some v"
| "getPath (k # ks) v = (case field k v of None \<Rightarrow> None | Some w \<Rightarrow> getPath ks w)"

section \<open>Sample conversations\<close>

text \<open>Concrete messages and conversations on which the theorems below are instantiated.\<close>

definition plainMessage :: "string \<Rightarrow> Message" where
  "plainMessage c =
     \<lparr> id_m = ''m1'', sessionId = ''s1'', role = ''user'', content = c,
       topologyImpact = None, metadata = JNull, createdAt = ''2024-01-01T00:00:00.000Z'' \<rparr>"

definition scenarioA :: "Message list" where
  "scenarioA = [plainMessage ''Hello'']"

definition scenarioB :: "Message list" where
  "scenarioB =
     [plainMessage ''Ok?'', plainMessage ''Ok'', plainMessage ''Ok'',
      plainMessage ''Ok?'', plainMessage ''Ok'', plainMessage ''Ok'',
      plainMessage ''Ok?'', plainMessage ''Ok'', plainMessage ''Ok'']"

definition fourPlain :: "Message list" where
  "fourPlain = [plainMessage ''Ok'', plainMessage ''Ok'', plainMessage ''Ok'', plainMessage ''Ok'']"


section \<open>Basic facts\<close>

lemma ceilHalf_real: "int (ceilHalf b) = \<lceil>real b / 2\<rceil>"
  unfolding ceilHalf_def by linarith

lemma floorHalf_real: "int (floorHalf b) = \<lfloor>real b / 2\<rfloor>"
  unfolding floorHalf_def by linarith

lemma countSignals_eq:
  "countSignals ms (b, c) = (b + length (filter isBranching ms), c + length (filter isClosure ms))"
  by (induction ms arbitrary: b c) auto

lemma analyzeThreads_branchingPoints:
  "ta_branchingPoints (analyzeThreads ms) = length (filter isBranching ms)"
  by (simp add: analyzeThreads_def countSignals_eq Let_def)

lemma analyzeThreads_order:
  "ta_order (analyzeThreads ms) = determineOrder (length ms) (length (filter isBranching ms))"
  by (simp add: analyzeThreads_def countSignals_eq Let_def)

lemma analyzeThreads_threads:
  "ta_threads (analyzeThreads ms) =
     max 1 (min (ta_order (analyzeThreads ms) + 1) (ceilHalf (length (filter isBranching ms)) + 1))"
  by (simp add: analyzeThreads_def countSignals_eq Let_def)

lemma analyzeThreads_nestingDepth:
  "ta_nestingDepth (analyzeThreads ms) =
     min 4 (max 1 (floorHalf (length (filter isBranching ms)) + 1))"
  by (simp add: analyzeThreads_def countSignals_eq Let_def)

lemma determineOrder_range: "determineOrder m b \<in> {1, 2, 3, 4}"
  by (simp add: determineOrder_def Let_def)

lemma calculateTopology_nonempty:
  "ms \<noteq> [] \<Longrightarrow>
   calculateTopology ms =
     \<lparr> pattern = generatePattern (analyzeThreads ms),
       order = ta_order (analyzeThreads ms),
       threads = ta_threads (analyzeThreads ms),
       complexity = determineComplexity (analyzeThreads ms),
       primeFactors = calculatePrimeFactors (analyzeThreads ms),
       structure = buildStructure (analyzeThreads ms),
       nestingDepth = ta_nestingDepth (analyzeThreads ms) \<rparr>"
  by (simp add: calculateTopology_def Let_def)

section \<open>The empty conversation\<close>

text \<open>
  C8. \<open>calculateTopology\<close> on the empty message list returns the fixed empty topology:
  pattern \<open>s0={}\<close>, order 0, threads 0, complexity \<open>empty\<close>, no prime factors, the
  structure with two empty lists and \<open>s0\<close>, nesting depth 0. The thread analysis is
  bypassed: on the empty list it would report order 1, one thread and depth 1.
\<close>

theorem calculateTopology_empty:
  "calculateTopology [] =
     \<lparr> pattern = ''s0={}'', order = 0, threads = 0, complexity = ''empty'',
       primeFactors = [],
       structure = \<lparr> procedural = [], perspectival = [], participatory = ''s0'' \<rparr>,
       nestingDepth = 0 \<rparr>
   \<and> calculateTopology [] = createEmptyTopology
   \<and> ta_order (analyzeThreads []) = 1
   \<and> ta_threads (analyzeThreads []) = 1
   \<and> ta_nestingDepth (analyzeThreads []) = 1"
  by (simp add: calculateTopology_def createEmptyTopology_def analyzeThreads_def
      determineOrder_def ceilHalf_def floorHalf_def Let_def)

section \<open>Facts about the sample conversations\<close>

lemma digitChar_simps:
  "digitChar 0 = CHR ''0''" "digitChar 1 = CHR ''1''" "digitChar 2 = CHR ''2''"
  "digitChar 3 = CHR ''3''" "digitChar 4 = CHR ''4''" "digitChar 5 = CHR ''5''"
  "digitChar 6 = CHR ''6''" "digitChar 7 = CHR ''7''" "digitChar 8 = CHR ''8''"
  "digitChar 9 = CHR ''9''"
  by code_simp+

lemma showNat_digit: "n < 10 \<Longrightarrow> showNat n = [digitChar n]"
  by (simp add: showNat.simps)

lemma content_plainMessage: "content (plainMessage c) = c"
  by (simp add: plainMessage_def)

lemma sample_includes:
  "includes_str ''Ok?'' ''?''" "\<not> includes_str ''Ok'' ''?''" "\<not> includes_str ''Hello'' ''?''"
  by simp_all

lemma sample_branching:
  "isBranching (plainMessage ''Ok?'')" "\<not> isBranching (plainMessage ''Ok'')"
  "\<not> isBranching (plainMessage ''Hello'')"
  by code_simp+

lemma analyzeThreads_scenarioA:
  "analyzeThreads scenarioA =
     \<lparr> ta_order = 1, ta_threads = 1, ta_nestingDepth = 1, ta_branchingPoints = 0,
       ta_closureAttempts = 0 \<rparr>"
  by code_simp

lemma analyzeThreads_scenarioB:
  "analyzeThreads scenarioB =
     \<lparr> ta_order = 3, ta_threads = 3, ta_nestingDepth = 2, ta_branchingPoints = 3,
       ta_closureAttempts = 0 \<rparr>"
  by code_simp

lemma analyzeThreads_fourPlain:
  "analyzeThreads fourPlain =
     \<lparr> ta_order = 2, ta_threads = 1, ta_nestingDepth = 1, ta_branchingPoints = 0,
       ta_closureAttempts = 0 \<rparr>"
  by code_simp

lemma samples_nonempty: "scenarioA \<noteq> []" "scenarioB \<noteq> []" "fourPlain \<noteq> []"
  by (simp_all add: scenarioA_def scenarioB_def fourPlain_def)

section \<open>The renderer against the specification's rendering rules\<close>

lemma wrapLoop_step: "i < d \<Longrightarrow> wrapLoop i d p = wrapLoop (i + 1) d (wrap_spec p)"
  by (subst wrapLoop.simps) (simp add: wrap_spec_def)

lemma wrapLoop_done: "\<not> i < d \<Longrightarrow> wrapLoop i d p = p"
  by (subst wrapLoop.simps) simp

lemma wrapLoop_funpow: "wrapLoop i d p = (wrap_spec ^^ (d - i)) p"
proof (induction i d p rule: wrapLoop.induct)
  case (1 i depth p)
  show ?case
  proof (cases "i < depth")
    case True
    then have "depth - i = Suc (depth - (i + 1))" by simp
    then have "(wrap_spec ^^ (depth - i)) p = (wrap_spec ^^ (depth - (i + 1))) (wrap_spec p)"
      by (simp only: funpow_Suc_right o_apply)
    moreover have "wrapLoop (i + 1) depth (wrap_spec p) =
        (wrap_spec ^^ (depth - (i + 1))) (wrap_spec p)"
      using 1 [OF True] by (simp only: wrap_spec_def [symmetric])
    ultimately show ?thesis
      using True by (simp only: wrapLoop_step)
  next
    case False
    then show ?thesis by (simp add: wrapLoop_done)
  qed
qed

lemma generateNestedPattern_spec: "generateNestedPattern d = nested_spec d"
  by (simp add: generateNestedPattern_def nested_spec_def wrapLoop_funpow)

lemma generatePattern_spec:
  "ta_order a \<noteq> 0 \<Longrightarrow>
   generatePattern a = render_spec (ta_order a) (ta_threads a) (ta_nestingDepth a)"
  by (simp add: generatePattern_def render_spec_def fillJoin_def generateNestedPattern_spec Let_def)

lemma analyzeThreads_order_pos: "ta_order (analyzeThreads ms) \<noteq> 0"
  using determineOrder_range [of "length ms" "length (filter isBranching ms)"]
  by (auto simp: analyzeThreads_order)

lemma order_zero_iff_empty: "order (calculateTopology ms) = 0 \<longleftrightarrow> ms = []"
  by (cases "ms = []")
    (simp_all add: calculateTopology_def createEmptyTopology_def Let_def analyzeThreads_order_pos)

lemma nested_spec_values:
  "nested_spec 0 = ''()''" "nested_spec 1 = ''()''" "nested_spec (Suc 0) = ''()''"
  "nested_spec 2 = ''(())''"
  by (simp_all add: nested_spec_def wrap_spec_def)

text \<open>
  C1. For every message sequence, re-rendering the pattern from the order, threads and
  nesting depth that the result reports, by the rendering rules of the specification,
  gives exactly the pattern field of the result.
\<close>

theorem rerender_pattern:
  "render_spec (order (calculateTopology ms)) (threads (calculateTopology ms))
     (nestingDepth (calculateTopology ms)) = pattern (calculateTopology ms)"
proof (cases "ms = []")
  case True
  then show ?thesis
    by (simp add: render_spec_def calculateTopology_def createEmptyTopology_def)
next
  case False
  then show ?thesis
    by (simp add: calculateTopology_nonempty generatePattern_spec analyzeThreads_order_pos)
qed

theorem rerender_pattern_witness:
  "render_spec (order (calculateTopology fourPlain)) (threads (calculateTopology fourPlain))
     (nestingDepth (calculateTopology fourPlain)) = pattern (calculateTopology fourPlain) \<and>
   pattern (calculateTopology fourPlain) = ''s2={[()],[(())]}'' \<and>
   render_spec (order (calculateTopology scenarioB)) (threads (calculateTopology scenarioB))
     (nestingDepth (calculateTopology scenarioB)) = pattern (calculateTopology scenarioB) \<and>
   pattern (calculateTopology scenarioB) = ''s3={[()()()],[((()))]}'' \<and>
   render_spec (order (calculateTopology [])) (threads (calculateTopology []))
     (nestingDepth (calculateTopology [])) = pattern (calculateTopology []) \<and>
   pattern (calculateTopology []) = ''s0={}''"
proof -
  have a: "render_spec 2 1 1 = ''s2={[()],[(())]}''"
    by (simp add: render_spec_def nested_spec_values showNat_digit digitChar_simps)
  have r: "concat (replicate 3 ''()'') = ''()()()''"
    by (simp add: eval_nat_numeral)
  have b: "render_spec 3 3 2 = ''s3={[()()()],[((()))]}''"
    by (simp add: render_spec_def nested_spec_values showNat_digit digitChar_simps r)
  have c: "pattern (calculateTopology []) = ''s0={}''"
    by (simp add: calculateTopology_def createEmptyTopology_def)
  show ?thesis
    using rerender_pattern [of fourPlain] rerender_pattern [of scenarioB]
      rerender_pattern [of "[]"] a b c
    by (simp add: samples_nonempty calculateTopology_nonempty analyzeThreads_fourPlain
        analyzeThreads_scenarioB)
qed

section \<open>Scenario B\<close>

lemma fillJoin_3: "fillJoin 3 ''()'' = ''()()()''"
  by (simp add: fillJoin_def eval_nat_numeral)

lemma generateNestedPattern_2: "generateNestedPattern 2 = ''(())''"
  by (simp add: generateNestedPattern_spec nested_spec_values)

text \<open>
  C2. For every sequence of nine messages of which exactly three contain \<open>?\<close>, and in
  which no message counts as branching in another way (through \<open>what\<close> or \<open>how\<close> in
  its lower-cased content), the result has order 3, threads 3, nesting depth 2, the
  pattern \<open>s3={[()()()],[((()))]}\<close> and the prime factors \<open>p1p1\<close>, \<open>p2\<close>, \<open>p3\<close> in
  that order.
\<close>

theorem scenarioB_result:
  assumes "length ms = 9"
    and "length (filter (\<lambda>m. includes_str (content m) ''?'') ms) = 3"
    and "\<forall>m \<in> set ms. isBranching m \<longrightarrow> includes_str (content m) ''?''"
  shows "order (calculateTopology ms) = 3 \<and> threads (calculateTopology ms) = 3 \<and>
    nestingDepth (calculateTopology ms) = 2 \<and>
    pattern (calculateTopology ms) = ''s3={[()()()],[((()))]}'' \<and>
    primeFactors (calculateTopology ms) = [''p1p1'', ''p2'', ''p3'']"
proof -
  from assms(1) have ne: "ms \<noteq> []" by auto
  have "filter isBranching ms = filter (\<lambda>m. includes_str (content m) ''?'') ms"
    using assms(3) by (intro filter_cong) (auto simp: isBranching_def)
  with assms(2) have b: "length (filter isBranching ms) = 3" by simp
  have o: "ta_order (analyzeThreads ms) = 3"
    by (simp add: analyzeThreads_order assms(1) b determineOrder_def Let_def)
  have t: "ta_threads (analyzeThreads ms) = 3"
    by (simp add: analyzeThreads_threads o b ceilHalf_def)
  have n: "ta_nestingDepth (analyzeThreads ms) = 2"
    by (simp add: analyzeThreads_nestingDepth b floorHalf_def)
  have p: "generatePattern (analyzeThreads ms) = ''s3={[()()()],[((()))]}''"
    by (simp add: generatePattern_def o t n fillJoin_3 generateNestedPattern_2 showNat_digit
        digitChar_simps)
  have f: "calculatePrimeFactors (analyzeThreads ms) = [''p1p1'', ''p2'', ''p3'']"
    by (simp add: calculatePrimeFactors_def o t n)
  show ?thesis
    by (simp add: calculateTopology_nonempty [OF ne] o t n p f)
qed

theorem scenarioB_result_witness:
  "length scenarioB = 9 \<and>
   length (filter (\<lambda>m. includes_str (content m) ''?'') scenarioB) = 3 \<and>
   filter (\<lambda>m. isBranching m \<and> \<not> includes_str (content m) ''?'') scenarioB = [] \<and>
   order (calculateTopology scenarioB) = 3 \<and> threads (calculateTopology scenarioB) = 3 \<and>
   nestingDepth (calculateTopology scenarioB) = 2 \<and>
   pattern (calculateTopology scenarioB) = ''s3={[()()()],[((()))]}'' \<and>
   primeFactors (calculateTopology scenarioB) = [''p1p1'', ''p2'', ''p3'']"
proof -
  have h1: "length scenarioB = 9"
    by (simp add: scenarioB_def)
  have h2: "length (filter (\<lambda>m. includes_str (content m) ''?'') scenarioB) = 3"
    by (simp add: scenarioB_def content_plainMessage)
  have h3: "\<forall>m \<in> set scenarioB. isBranching m \<longrightarrow> includes_str (content m) ''?''"
    by (simp add: scenarioB_def content_plainMessage sample_branching)
  have h4: "filter (\<lambda>m. isBranching m \<and> \<not> includes_str (content m) ''?'') scenarioB = []"
    by (simp add: scenarioB_def content_plainMessage sample_branching)
  show ?thesis
    using scenarioB_result [OF h1 h2 h3] h1 h2 h4 by simp
qed

section \<open>Bounds on threads, nesting depth and order\<close>

lemma threads_bounds:
  "1 \<le> ta_threads (analyzeThreads ms) \<and>
   ta_threads (analyzeThreads ms) \<le> ta_order (analyzeThreads ms) + 1"
  by (simp add: analyzeThreads_threads)

lemma nestingDepth_bounds:
  "1 \<le> ta_nestingDepth (analyzeThreads ms) \<and> ta_nestingDepth (analyzeThreads ms) \<le> 4"
  by (simp add: analyzeThreads_nestingDepth)

lemma determineOrder_mono:
  "m \<le> m' \<Longrightarrow> b \<le> b' \<Longrightarrow> determineOrder m b \<le> determineOrder m' b'"
  by (simp add: determineOrder_def Let_def)

text \<open>
  C4 (as stated). The empty list is an input of \<open>calculateTopology\<close>, and its result
  has threads 0 and nesting depth 0, below the claimed lower bound 1.
\<close>

theorem bounds_empty_counterexample:
  "\<not> (1 \<le> threads (calculateTopology []) \<and>
      threads (calculateTopology []) \<le> order (calculateTopology []) + 1 \<and>
      1 \<le> nestingDepth (calculateTopology []) \<and> nestingDepth (calculateTopology []) \<le> 4)"
  by (simp add: calculateTopology_def createEmptyTopology_def)

text \<open>
  C4 (amended). For every message sequence the result satisfies
  \<open>threads \<le> order + 1\<close> and \<open>nestingDepth \<le> 4\<close>; for every non-empty one it also
  satisfies \<open>1 \<le> threads\<close> and \<open>1 \<le> nestingDepth\<close>.
\<close>

theorem bounds_nonempty:
  "threads (calculateTopology ms) \<le> order (calculateTopology ms) + 1 \<and>
   nestingDepth (calculateTopology ms) \<le> 4 \<and>
   (ms \<noteq> [] \<longrightarrow>
      1 \<le> threads (calculateTopology ms) \<and> 1 \<le> nestingDepth (calculateTopology ms))"
proof (cases "ms = []")
  case True
  then show ?thesis by (simp add: calculateTopology_def createEmptyTopology_def)
next
  case False
  then show ?thesis
    using threads_bounds [of ms] nestingDepth_bounds [of ms]
    by (simp add: calculateTopology_nonempty)
qed

theorem bounds_nonempty_witness:
  "scenarioB \<noteq> [] \<and>
   threads (calculateTopology scenarioB) = 3 \<and> order (calculateTopology scenarioB) = 3 \<and>
   nestingDepth (calculateTopology scenarioB) = 2 \<and>
   1 \<le> threads (calculateTopology scenarioB) \<and>
   threads (calculateTopology scenarioB) \<le> order (calculateTopology scenarioB) + 1 \<and>
   1 \<le> nestingDepth (calculateTopology scenarioB) \<and>
   nestingDepth (calculateTopology scenarioB) \<le> 4"
  using bounds_nonempty [of scenarioB]
  by (simp add: samples_nonempty calculateTopology_nonempty analyzeThreads_scenarioB)

text \<open>
  C5. The order, as a function of the message count and the number of branching
  points, is non-decreasing in each argument; and for every non-empty message sequence
  the reported order is that function of the two counts and lies in \<open>{1, 2, 3, 4}\<close>.
\<close>

theorem order_monotone_and_range:
  "(m \<le> m' \<longrightarrow> determineOrder m b \<le> determineOrder m' b) \<and>
   (b \<le> b' \<longrightarrow> determineOrder m b \<le> determineOrder m b') \<and>
   (ms \<noteq> [] \<longrightarrow>
      order (calculateTopology ms) =
        determineOrder (length ms) (length (filter isBranching ms)) \<and>
      order (calculateTopology ms) \<in> {1, 2, 3, 4})"
  using determineOrder_range [of "length ms" "length (filter isBranching ms)"]
  by (simp add: determineOrder_mono calculateTopology_nonempty analyzeThreads_order)

theorem order_monotone_and_range_witness:
  "(3::nat) \<le> 9 \<and> determineOrder 3 0 = 1 \<and> determineOrder 9 0 = 3 \<and>
   determineOrder 3 0 \<le> determineOrder 9 0 \<and>
   (0::nat) \<le> 5 \<and> determineOrder 3 5 = 4 \<and> determineOrder 3 0 \<le> determineOrder 3 5 \<and>
   scenarioB \<noteq> [] \<and> order (calculateTopology scenarioB) = 3 \<and>
   order (calculateTopology scenarioB) \<in> {1, 2, 3, 4}"
  using order_monotone_and_range [of 3 9 0 5 scenarioB]
  by (simp add: samples_nonempty calculateTopology_nonempty analyzeThreads_scenarioB
      determineOrder_def)

section \<open>Order-one stability\<close>

text \<open>
  C7 (as stated). The empty sequence has at most three messages and at most two
  branching points, and its pattern is \<open>s0={}\<close>, not \<open>s1={[()]}\<close>.
\<close>

theorem order_one_empty_counterexample:
  "length ([] :: Message list) \<le> 3 \<and> length (filter isBranching []) \<le> 2 \<and>
   pattern (calculateTopology []) = ''s0={}'' \<and>
   pattern (calculateTopology []) \<noteq> ''s1={[()]}''"
  by (simp add: calculateTopology_def createEmptyTopology_def)

text \<open>
  C7 (amended). For every non-empty message sequence with at most three messages and at
  most two branching points the pattern is exactly \<open>s1={[()]}\<close>, whatever the messages
  contain otherwise.
\<close>

theorem order_one_pattern:
  "ms \<noteq> [] \<Longrightarrow> length ms \<le> 3 \<Longrightarrow> length (filter isBranching ms) \<le> 2 \<Longrightarrow>
   pattern (calculateTopology ms) = ''s1={[()]}''"
  by (simp add: calculateTopology_nonempty generatePattern_def analyzeThreads_order
      determineOrder_def Let_def)

theorem order_one_pattern_witness:
  "[plainMessage ''Ok?'', plainMessage ''Ok'', plainMessage ''Ok?''] \<noteq> [] \<and>
   length [plainMessage ''Ok?'', plainMessage ''Ok'', plainMessage ''Ok?''] \<le> 3 \<and>
   length (filter isBranching [plainMessage ''Ok?'', plainMessage ''Ok'', plainMessage ''Ok?'']) \<le> 2 \<and>
   pattern (calculateTopology [plainMessage ''Ok?'', plainMessage ''Ok'', plainMessage ''Ok?'']) =
     ''s1={[()]}''"
  using order_one_pattern [of "[plainMessage ''Ok?'', plainMessage ''Ok'', plainMessage ''Ok?'']"]
  by (simp add: sample_branching)

section \<open>Prime factors\<close>

lemma calculatePrimeFactors_cases:
  "calculatePrimeFactors a \<noteq> [] \<and>
   (calculatePrimeFactors a = [''p1''] \<longleftrightarrow>
      ta_threads a < 2 \<and> ta_order a < 2 \<and> ta_nestingDepth a \<le> 2) \<and>
   (''p1'' \<in> set (calculatePrimeFactors a) \<longrightarrow> calculatePrimeFactors a = [''p1''])"
  by (simp add: calculatePrimeFactors_def Let_def)

text \<open>
  C6. For every non-empty message sequence the list of prime factors is not empty, and
  it is exactly \<open>[p1]\<close> if and only if \<open>threads < 2\<close>, \<open>order < 2\<close> and
  \<open>nestingDepth \<le> 2\<close> hold together.
\<close>

theorem primeFactors_nonempty_p1:
  "ms \<noteq> [] \<Longrightarrow>
   primeFactors (calculateTopology ms) \<noteq> [] \<and>
   (primeFactors (calculateTopology ms) = [''p1''] \<longleftrightarrow>
      threads (calculateTopology ms) < 2 \<and> order (calculateTopology ms) < 2 \<and>
      nestingDepth (calculateTopology ms) \<le> 2)"
  using calculatePrimeFactors_cases [of "analyzeThreads ms"]
  by (simp add: calculateTopology_nonempty)

theorem primeFactors_nonempty_p1_witness:
  "scenarioA \<noteq> [] \<and> primeFactors (calculateTopology scenarioA) \<noteq> [] \<and>
   primeFactors (calculateTopology scenarioA) = [''p1''] \<and>
   threads (calculateTopology scenarioA) < 2 \<and> order (calculateTopology scenarioA) < 2 \<and>
   nestingDepth (calculateTopology scenarioA) \<le> 2"
  using primeFactors_nonempty_p1 [of scenarioA]
  by (simp add: samples_nonempty calculateTopology_nonempty analyzeThreads_scenarioA)

text \<open>
  C10. For every non-empty message sequence, if the tag \<open>p1\<close> occurs among the prime
  factors then the list is the singleton \<open>[p1]\<close>: none of \<open>p1p1\<close>, \<open>p2\<close>, \<open>p3\<close>,
  \<open>p5\<close> occurs with it.
\<close>

theorem p1_only_alone:
  "ms \<noteq> [] \<Longrightarrow> ''p1'' \<in> set (primeFactors (calculateTopology ms)) \<Longrightarrow>
   primeFactors (calculateTopology ms) = [''p1''] \<and>
   ''p1p1'' \<notin> set (primeFactors (calculateTopology ms)) \<and>
   ''p2'' \<notin> set (primeFactors (calculateTopology ms)) \<and>
   ''p3'' \<notin> set (primeFactors (calculateTopology ms)) \<and>
   ''p5'' \<notin> set (primeFactors (calculateTopology ms))"
  using calculatePrimeFactors_cases [of "analyzeThreads ms"]
  by (simp add: calculateTopology_nonempty)

theorem p1_only_alone_witness:
  "scenarioA \<noteq> [] \<and> ''p1'' \<in> set (primeFactors (calculateTopology scenarioA)) \<and>
   primeFactors (calculateTopology scenarioA) = [''p1''] \<and>
   ''p1p1'' \<notin> set (primeFactors (calculateTopology scenarioA)) \<and>
   ''p2'' \<notin> set (primeFactors (calculateTopology scenarioA)) \<and>
   ''p3'' \<notin> set (primeFactors (calculateTopology scenarioA)) \<and>
   ''p5'' \<notin> set (primeFactors (calculateTopology scenarioA))"
proof -
  have h1: "scenarioA \<noteq> []"
    by (simp add: samples_nonempty)
  have h2: "''p1'' \<in> set (primeFactors (calculateTopology scenarioA))"
    by (simp add: samples_nonempty calculateTopology_nonempty analyzeThreads_scenarioA
        calculatePrimeFactors_def)
  show ?thesis
    using p1_only_alone [OF h1 h2] h1 h2 by simp
qed

section \<open>Serializing and reading back\<close>

lemma of_char_digitChar: "d < 10 \<Longrightarrow> (of_char (digitChar d) :: nat) = 48 + d"
  by (simp add: digitChar_def)

lemma isDigit_digitChar: "d < 10 \<Longrightarrow> isDigit (digitChar d)"
  by (simp add: isDigit_def of_char_digitChar)

lemma digitVal_digitChar: "d < 10 \<Longrightarrow> digitVal (digitChar d) = d"
  by (simp add: digitVal_def of_char_digitChar)

lemma hexVal_hexDigit: "d < 16 \<Longrightarrow> hexVal (hexDigit d) = Some d"
  by (simp add: hexVal_def hexDigit_def Let_def)

lemma hexVal_zero: "hexVal (CHR ''0'') = Some 0"
  by (simp add: hexVal_def)

lemma hex4_control:
  "n < 32 \<Longrightarrow> hex4 (CHR ''0'') (CHR ''0'') (hexDigit (n div 16)) (hexDigit (n mod 16)) = Some n"
  by (simp add: hex4_def hexVal_zero hexVal_hexDigit)

lemma parseString_quoteChar: "parseString (quoteChar c @ s) = consResult c (parseString s)"
proof -
  consider (named) "c \<in> {CHR 0x22, CHR 0x5C, CHR 0x08, CHR 0x0C, CHR 0x0A, CHR 0x0D, CHR 0x09}"
    | (control) "c \<notin> {CHR 0x22, CHR 0x5C, CHR 0x08, CHR 0x0C, CHR 0x0A, CHR 0x0D, CHR 0x09}"
        "(of_char c :: nat) < 32"
    | (plain) "c \<notin> {CHR 0x22, CHR 0x5C, CHR 0x08, CHR 0x0C, CHR 0x0A, CHR 0x0D, CHR 0x09}"
        "\<not> (of_char c :: nat) < 32"
    by blast
  then show ?thesis
  proof cases
    case named
    then show ?thesis
      by (auto simp: quoteChar_def unescape_def)
  next
    case control
    then show ?thesis
      by (simp add: quoteChar_def hex4_control)
  next
    case plain
    then show ?thesis
      by (simp add: quoteChar_def)
  qed
qed

lemma parseString_quoted:
  "parseString (concat (map quoteChar s) @ CHR 0x22 # rest) = Some (s, rest)"
  by (induction s) (simp_all add: parseString_quoteChar consResult_def)

lemma showNat_cases:
  "showNat n = (if n < 10 then [digitChar n] else showNat (n div 10) @ [digitChar (n mod 10)])"
  by (rule showNat.simps)

lemma showNat_digits: "list_all isDigit (showNat n)"
proof (induction n rule: showNat.induct)
  case (1 n)
  then show ?case
    by (subst showNat_cases) (simp add: isDigit_digitChar)
qed

lemma showNat_nonempty: "showNat n \<noteq> []"
  by (subst showNat_cases) simp

lemma readNat_snoc: "readNat (ds @ [c]) = 10 * readNat ds + digitVal c"
  by (simp add: readNat_def)

lemma readNat_showNat: "readNat (showNat n) = n"
proof (induction n rule: showNat.induct)
  case (1 n)
  show ?case
  proof (cases "n < 10")
    case True
    then show ?thesis
      by (subst showNat_cases) (simp add: readNat_def digitVal_digitChar)
  next
    case False
    then have "readNat (showNat (n div 10)) = n div 10" using 1 by simp
    with False show ?thesis
      by (subst showNat_cases) (simp add: readNat_snoc digitVal_digitChar)
  qed
qed

lemma digitChar_eq_zero: "d < 10 \<Longrightarrow> digitChar d = CHR ''0'' \<longleftrightarrow> d = 0"
proof
  assume d: "d < 10" and "digitChar d = CHR ''0''"
  then have "digitVal (digitChar d) = digitVal (digitChar 0)"
    by (simp add: digitChar_simps(1))
  with d show "d = 0" by (simp add: digitVal_digitChar)
next
  assume "d = 0"
  then show "digitChar d = CHR ''0''" by (simp add: digitChar_simps(1))
qed

lemma showNat_leading: "0 < n \<Longrightarrow> hd (showNat n) \<noteq> CHR ''0''"
proof (induction n rule: showNat.induct)
  case (1 n)
  show ?case
  proof (cases "n < 10")
    case True
    with 1(2) show ?thesis
      by (subst showNat_cases) (simp add: digitChar_eq_zero)
  next
    case False
    then have "hd (showNat (n div 10)) \<noteq> CHR ''0''"
      using 1 by simp
    with False show ?thesis
      by (subst showNat_cases) (simp add: showNat_nonempty)
  qed
qed

lemma showNat_single: "length (showNat n) > 1 \<Longrightarrow> 0 < n"
  by (cases "n = 0") (simp_all add: showNat_cases [of 0])

lemma takeWhile_digits:
  "list_all isDigit ds \<Longrightarrow> numEnd rest \<Longrightarrow> takeWhile isDigit (ds @ rest) = ds"
  by (induction ds) (auto simp: numEnd_def split: list.splits)

lemma dropWhile_digits:
  "list_all isDigit ds \<Longrightarrow> numEnd rest \<Longrightarrow> dropWhile isDigit (ds @ rest) = rest"
  by (induction ds) (auto simp: numEnd_def split: list.splits)

lemma parseDigits_showNat:
  assumes "numEnd rest"
  shows "parseDigits (showNat n @ rest) = Some (n, rest)"
proof -
  have tw: "takeWhile isDigit (showNat n @ rest) = showNat n"
    using assms by (simp add: takeWhile_digits showNat_digits)
  have dw: "dropWhile isDigit (showNat n @ rest) = rest"
    using assms by (simp add: dropWhile_digits showNat_digits)
  have lead: "\<not> (hd (showNat n) = CHR ''0'' \<and> length (showNat n) > 1)"
    using showNat_leading [of n] showNat_single [of n] by blast
  have stop: "\<not> (rest \<noteq> [] \<and> (hd rest = CHR ''.'' \<or> hd rest = CHR ''e'' \<or> hd rest = CHR ''E''))"
    using assms by (auto simp: numEnd_def split: list.splits)
  show ?thesis
    unfolding parseDigits_def Let_def tw dw
    using lead stop by (simp add: showNat_nonempty readNat_showNat)
qed

lemma showNat_head: "\<exists>c cs. showNat n = c # cs \<and> isDigit c"
  using showNat_digits [of n] showNat_nonempty [of n]
  by (cases "showNat n") simp_all

lemma parseNumber_showInt:
  assumes "numEnd rest"
  shows "parseNumber (showInt i @ rest) = Some (JNum i, rest)"
proof (cases "i < 0")
  case True
  then show ?thesis
    by (simp add: parseNumber_def showInt_def parseDigits_showNat [OF assms])
next
  case False
  obtain c cs where c: "showNat (nat i) = c # cs" "isDigit c"
    using showNat_head by blast
  then have "c \<noteq> CHR ''-''"
    by (auto simp: isDigit_def)
  moreover have "parseDigits (c # cs @ rest) = Some (nat i, rest)"
    using parseDigits_showNat [OF assms, of "nat i"] c by simp
  ultimately show ?thesis
    using False c by (simp add: parseNumber_def showInt_def)
qed

lemma showInt_head: "\<exists>c cs. showInt i = c # cs \<and> (isDigit c \<or> c = CHR ''-'')"
  using showNat_head [of "nat i"] by (auto simp: showInt_def)

lemma skipWs_pre: "list_all isWs pre \<Longrightarrow> skipWs (pre @ s) = skipWs s"
  by (induction pre) (simp_all add: skipWs_def)

lemma skipWs_start: "\<not> isWs c \<Longrightarrow> skipWs (c # s) = c # s"
  by (simp add: skipWs_def)

lemma skipWs_pre_start: "list_all isWs pre \<Longrightarrow> \<not> isWs c \<Longrightarrow> skipWs (pre @ c # s) = c # s"
  by (simp add: skipWs_pre skipWs_start)

lemma isWs_indentStr: "list_all isWs (indentStr n)"
  by (simp add: indentStr_def isWs_def list_all_iff)

lemma isWs_newline_indent: "list_all isWs (CHR 0x0A # indentStr n)"
  by (simp add: isWs_indentStr) (simp add: isWs_def)

lemma joinWith_Cons: "xs \<noteq> [] \<Longrightarrow> joinWith sep (x # xs) = x @ sep @ joinWith sep xs"
  by (cases xs) simp_all

lemma serializeItems_Nil: "serializeItems level vs = [] \<longleftrightarrow> vs = []"
  by (cases vs) simp_all

lemma serializeMembers_Nil: "serializeMembers level kvs = [] \<longleftrightarrow> kvs = []"
  by (cases kvs) auto

lemma valueStart_facts:
  "valueStart c \<Longrightarrow> \<not> isWs c \<and> c \<noteq> CHR '']'' \<and> c \<noteq> CHR ''}'' \<and> c \<noteq> CHR '','' \<and> c \<noteq> CHR '':''"
  by (auto simp: valueStart_def isWs_def isDigit_def)

lemma serializeJSON_head: "\<exists>c cs. serializeJSON level v = c # cs \<and> valueStart c"
proof (cases v)
  case (JNum i)
  then show ?thesis
    using showInt_head [of i] by (auto simp: valueStart_def)
qed (auto simp: valueStart_def quoteJSONString_def)

lemma serializeJSON_length: "1 \<le> length (serializeJSON level v)"
  using serializeJSON_head [of level v] by auto

lemma numEnd_close: "list_all isWs post \<Longrightarrow> c = CHR '']'' \<or> c = CHR ''}'' \<Longrightarrow> numEnd (post @ c # rest)"
  by (cases post) (auto simp: numEnd_def isWs_def isDigit_def)

lemma numEnd_comma: "numEnd (CHR '','' # rest)"
  by (simp add: numEnd_def isDigit_def)

lemma parseValue_Suc:
  "skipWs s = c # cs \<Longrightarrow>
   parseValue (Suc fuel) s =
     (if c = CHR 0x22 then
        (case parseString cs of None \<Rightarrow> None | Some (str, rest) \<Rightarrow> Some (JStr str, rest))
      else if c = CHR ''['' then
        (if startsWith (skipWs cs) '']'' then Some (JArr [], tl (skipWs cs))
         else (case parseItems fuel cs of
                 None \<Rightarrow> None
               | Some (vs, rest) \<Rightarrow> Some (JArr vs, rest)))
      else if c = CHR ''{'' then
        (if startsWith (skipWs cs) ''}'' then Some (JObj [], tl (skipWs cs))
         else (case parseMembers fuel cs of
                 None \<Rightarrow> None
               | Some (kvs, rest) \<Rightarrow> Some (JObj kvs, rest)))
      else if startsWith (c # cs) ''null'' then Some (JNull, drop 4 (c # cs))
      else if startsWith (c # cs) ''true'' then Some (JBool True, drop 4 (c # cs))
      else if startsWith (c # cs) ''false'' then Some (JBool False, drop 5 (c # cs))
      else parseNumber (c # cs))"
  by (simp add: parseValue.simps)

lemma parseValue_null:
  assumes "list_all isWs pre"
  shows "parseValue (Suc f) (pre @ ''null'' @ rest) = Some (JNull, rest)"
proof -
  have "skipWs (pre @ ''null'' @ rest) = ''null'' @ rest"
    using assms by (simp add: skipWs_pre_start isWs_def)
  then show ?thesis by (simp add: parseValue_Suc)
qed

lemma parseValue_true:
  assumes "list_all isWs pre"
  shows "parseValue (Suc f) (pre @ ''true'' @ rest) = Some (JBool True, rest)"
proof -
  have "skipWs (pre @ ''true'' @ rest) = ''true'' @ rest"
    using assms by (simp add: skipWs_pre_start isWs_def)
  then show ?thesis by (simp add: parseValue_Suc)
qed

lemma parseValue_false:
  assumes "list_all isWs pre"
  shows "parseValue (Suc f) (pre @ ''false'' @ rest) = Some (JBool False, rest)"
proof -
  have "skipWs (pre @ ''false'' @ rest) = ''false'' @ rest"
    using assms by (simp add: skipWs_pre_start isWs_def)
  then show ?thesis by (simp add: parseValue_Suc)
qed

lemma parseValue_string:
  assumes "list_all isWs pre"
  shows "parseValue (Suc f) (pre @ quoteJSONString s @ rest) = Some (JStr s, rest)"
proof -
  have "skipWs (pre @ quoteJSONString s @ rest) = CHR 0x22 # concat (map quoteChar s) @ CHR 0x22 # rest"
    using assms by (simp add: quoteJSONString_def skipWs_pre_start isWs_def)
  then show ?thesis by (simp add: parseValue_Suc parseString_quoted)
qed

lemma parseValue_number:
  assumes "list_all isWs pre" and "numEnd rest"
  shows "parseValue (Suc f) (pre @ showInt i @ rest) = Some (JNum i, rest)"
proof -
  obtain c cs where c: "showInt i = c # cs" "isDigit c \<or> c = CHR ''-''"
    using showInt_head by blast
  then have nws: "\<not> isWs c" and ne: "c \<noteq> CHR 0x22" "c \<noteq> CHR ''[''" "c \<noteq> CHR ''{''"
    "c \<noteq> CHR ''n''" "c \<noteq> CHR ''t''" "c \<noteq> CHR ''f''"
    by (auto simp: isWs_def isDigit_def)
  have "skipWs (pre @ showInt i @ rest) = c # cs @ rest"
    using assms(1) nws c by (simp add: skipWs_pre_start)
  moreover have "parseNumber (c # cs @ rest) = Some (JNum i, rest)"
    using parseNumber_showInt [OF assms(2), of i] c by simp
  ultimately show ?thesis
    using ne by (simp add: parseValue_Suc)
qed

lemma parseValue_empty_array:
  assumes "list_all isWs pre"
  shows "parseValue (Suc f) (pre @ ''[]'' @ rest) = Some (JArr [], rest)"
proof -
  have "skipWs (pre @ ''[]'' @ rest) = ''[]'' @ rest"
    using assms by (simp add: skipWs_pre_start isWs_def)
  moreover have "skipWs ('']'' @ rest) = '']'' @ rest"
    by (simp add: skipWs_start isWs_def)
  ultimately show ?thesis by (simp add: parseValue_Suc)
qed

lemma parseValue_empty_object:
  assumes "list_all isWs pre"
  shows "parseValue (Suc f) (pre @ ''{}'' @ rest) = Some (JObj [], rest)"
proof -
  have "skipWs (pre @ ''{}'' @ rest) = ''{}'' @ rest"
    using assms by (simp add: skipWs_pre_start isWs_def)
  moreover have "skipWs (''}'' @ rest) = ''}'' @ rest"
    by (simp add: skipWs_start isWs_def)
  ultimately show ?thesis by (simp add: parseValue_Suc)
qed

lemma parseValue_array:
  assumes "list_all isWs pre" and "list_all isWs pre1"
    and "body = c # cs" and "valueStart c"
    and "parseItems f (pre1 @ body) = Some (vs, rest)"
  shows "parseValue (Suc f) (pre @ ''['' @ pre1 @ body) = Some (JArr vs, rest)"
proof -
  have "skipWs (pre @ ''['' @ pre1 @ body) = ''['' @ pre1 @ body"
    using assms(1) by (simp add: skipWs_pre_start isWs_def)
  moreover have "skipWs (pre1 @ body) = c # cs"
    using assms(2,3,4) by (simp add: skipWs_pre_start valueStart_facts)
  moreover have "c \<noteq> CHR '']''"
    using assms(4) by (simp add: valueStart_facts)
  ultimately show ?thesis
    using assms(5) by (simp add: parseValue_Suc)
qed

lemma parseValue_object:
  assumes "list_all isWs pre" and "list_all isWs pre1"
    and "body = CHR 0x22 # cs"
    and "parseMembers f (pre1 @ body) = Some (kvs, rest)"
  shows "parseValue (Suc f) (pre @ ''{'' @ pre1 @ body) = Some (JObj kvs, rest)"
proof -
  have "skipWs (pre @ ''{'' @ pre1 @ body) = ''{'' @ pre1 @ body"
    using assms(1) by (simp add: skipWs_pre_start isWs_def)
  moreover have "skipWs (pre1 @ body) = CHR 0x22 # cs"
    using assms(2,3) by (simp add: skipWs_pre_start isWs_def)
  ultimately show ?thesis
    using assms(4) by (simp add: parseValue_Suc)
qed

lemma parseItems_last:
  assumes "parseValue f s = Some (v, post @ CHR '']'' # rest)" and "list_all isWs post"
  shows "parseItems (Suc f) s = Some ([v], rest)"
proof -
  have "skipWs (post @ CHR '']'' # rest) = CHR '']'' # rest"
    using assms(2) by (simp add: skipWs_pre_start isWs_def)
  then show ?thesis using assms(1) by (simp add: parseItems.simps)
qed

lemma parseItems_more:
  assumes "parseValue f s = Some (v, CHR '','' # s')" and "parseItems f s' = Some (vs, rest)"
  shows "parseItems (Suc f) s = Some (v # vs, rest)"
proof -
  have "skipWs (CHR '','' # s') = CHR '','' # s'"
    by (simp add: skipWs_start isWs_def)
  then show ?thesis using assms by (simp add: parseItems.simps)
qed

lemma parseMembers_key:
  assumes "list_all isWs pre"
  shows "parseMembers (Suc f) (pre @ quoteJSONString k @ '': '' @ body) =
     (case parseValue f ('' '' @ body) of
        None \<Rightarrow> None
      | Some (v, rest2) \<Rightarrow>
          (case skipWs rest2 of
             [] \<Rightarrow> None
           | c # rest3 \<Rightarrow>
               if c = CHR '','' then
                 (case parseMembers f rest3 of
                    None \<Rightarrow> None
                  | Some (kvs, rest4) \<Rightarrow> Some ((k, v) # kvs, rest4))
               else if c = CHR ''}'' then Some ([(k, v)], rest3)
               else None))"
proof -
  have a: "skipWs (pre @ quoteJSONString k @ '': '' @ body) =
      CHR 0x22 # concat (map quoteChar k) @ CHR 0x22 # '': '' @ body"
    using assms by (simp add: quoteJSONString_def skipWs_pre_start isWs_def)
  have b: "parseString (concat (map quoteChar k) @ CHR 0x22 # '': '' @ body) = Some (k, '': '' @ body)"
    by (rule parseString_quoted)
  have c: "skipWs ('': '' @ body) = CHR '':'' # '' '' @ body"
    by (simp add: skipWs_start isWs_def)
  show ?thesis
    by (simp only: parseMembers.simps a b c list.case option.case prod.case) simp
qed

lemma parseMembers_last:
  assumes "list_all isWs pre"
    and "parseValue f ('' '' @ body) = Some (v, post @ CHR ''}'' # rest)" and "list_all isWs post"
  shows "parseMembers (Suc f) (pre @ quoteJSONString k @ '': '' @ body) = Some ([(k, v)], rest)"
proof -
  have "skipWs (post @ CHR ''}'' # rest) = CHR ''}'' # rest"
    using assms(3) by (simp add: skipWs_pre_start isWs_def)
  then show ?thesis
    using assms(2) by (subst parseMembers_key [OF assms(1)]) simp
qed

lemma parseMembers_more:
  assumes "list_all isWs pre"
    and "parseValue f ('' '' @ body) = Some (v, CHR '','' # s')"
    and "parseMembers f s' = Some (kvs, rest)"
  shows "parseMembers (Suc f) (pre @ quoteJSONString k @ '': '' @ body) = Some ((k, v) # kvs, rest)"
proof -
  have "skipWs (CHR '','' # s') = CHR '','' # s'"
    by (simp add: skipWs_start isWs_def)
  then show ?thesis
    using assms(2,3) by (subst parseMembers_key [OF assms(1)]) simp
qed

lemma isWs_space: "list_all isWs '' ''"
  by (simp add: isWs_def)

lemma parse_serialize:
  "\<And>fuel pre rest. length (serializeJSON level v) \<le> fuel \<Longrightarrow> numEnd rest \<Longrightarrow>
     list_all isWs pre \<Longrightarrow>
     parseValue fuel (pre @ serializeJSON level v @ rest) = Some (v, rest)"
  and "\<And>fuel pre mid post rest. vs \<noteq> [] \<Longrightarrow>
     length (joinWith ('','' @ mid) (serializeItems level vs)) < fuel \<Longrightarrow>
     list_all isWs pre \<Longrightarrow> list_all isWs mid \<Longrightarrow> list_all isWs post \<Longrightarrow>
     parseItems fuel (pre @ joinWith ('','' @ mid) (serializeItems level vs) @ post @ '']'' @ rest) =
       Some (vs, rest)"
  and "\<And>fuel pre mid post rest. kvs \<noteq> [] \<Longrightarrow>
     length (joinWith ('','' @ mid) (serializeMembers level kvs)) < fuel \<Longrightarrow>
     list_all isWs pre \<Longrightarrow> list_all isWs mid \<Longrightarrow> list_all isWs post \<Longrightarrow>
     parseMembers fuel (pre @ joinWith ('','' @ mid) (serializeMembers level kvs) @ post @ ''}'' @ rest) =
       Some (kvs, rest)"
proof (induction level v and level vs and level kvs
    rule: serializeJSON_serializeItems_serializeMembers.induct)
  case (1 level)
  then obtain f where "fuel = Suc f" by (cases fuel) simp_all
  with 1 show ?case by (simp only: serializeJSON.simps parseValue_null)
next
  case (2 level b)
  then obtain f where "fuel = Suc f" by (cases fuel) (simp_all split: if_splits)
  with 2 show ?case
    by (cases b) (simp_all only: serializeJSON.simps if_True if_False parseValue_true parseValue_false)
next
  case (3 level i)
  then obtain f where "fuel = Suc f"
    using serializeJSON_length [of level "JNum i"] by (cases fuel) simp_all
  with 3 show ?case by (simp only: serializeJSON.simps parseValue_number)
next
  case (4 level s)
  then obtain f where "fuel = Suc f"
    using serializeJSON_length [of level "JStr s"] by (cases fuel) simp_all
  with 4 show ?case by (simp only: serializeJSON.simps parseValue_string)
next
  case (5 level vs)
  show ?case
  proof (cases "vs = []")
    case True
    from 5(2) obtain f where "fuel = Suc f"
      using serializeJSON_length [of level "JArr vs"] by (cases fuel) simp_all
    with True parseValue_empty_array [OF 5(4), of f rest] show ?thesis by simp
  next
    case False
    define mid where "mid = CHR 0x0A # indentStr (level + 1)"
    define post where "post = CHR 0x0A # indentStr level"
    define items where "items = joinWith ('','' @ mid) (serializeItems (level + 1) vs)"
    have ws: "list_all isWs mid" "list_all isWs post"
      by (simp_all only: mid_def post_def isWs_newline_indent)
    have ser: "serializeJSON level (JArr vs) = ''['' @ mid @ items @ post @ '']''"
      using False by (simp add: mid_def post_def items_def)
    have "length items + 2 \<le> fuel"
      using 5(2) unfolding ser by simp
    then obtain f where f: "fuel = Suc f" and len: "length items < f"
      by (cases fuel) simp_all
    obtain v' vs' where vs: "vs = v' # vs'" using False by (cases vs) auto
    obtain c cs where c: "serializeJSON (level + 1) v' = c # cs" "valueStart c"
      using serializeJSON_head by blast
    have "items = serializeJSON (level + 1) v' @
        (if vs' = [] then [] else ('','' @ mid) @ joinWith ('','' @ mid) (serializeItems (level + 1) vs'))"
      by (cases vs') (simp_all add: items_def vs)
    with c obtain tail where tail: "items = c # tail" by auto
    have "parseItems f (mid @ items @ post @ '']'' @ rest) = Some (vs, rest)"
      unfolding items_def
      using 5(1) [OF False False _ ws(1) ws(1) ws(2), of f rest] len
      by (simp add: items_def)
    then have "parseItems f (mid @ (c # tail @ post @ '']'' @ rest)) = Some (vs, rest)"
      by (simp add: tail)
    from parseValue_array [OF 5(4) ws(1) refl c(2) this]
    show ?thesis unfolding ser f by (simp add: tail)
  qed
next
  case (6 level kvs)
  show ?case
  proof (cases "kvs = []")
    case True
    from 6(2) obtain f where "fuel = Suc f"
      using serializeJSON_length [of level "JObj kvs"] by (cases fuel) simp_all
    with True parseValue_empty_object [OF 6(4), of f rest] show ?thesis by simp
  next
    case False
    define mid where "mid = CHR 0x0A # indentStr (level + 1)"
    define post where "post = CHR 0x0A # indentStr level"
    define items where "items = joinWith ('','' @ mid) (serializeMembers (level + 1) kvs)"
    have ws: "list_all isWs mid" "list_all isWs post"
      by (simp_all only: mid_def post_def isWs_newline_indent)
    have ser: "serializeJSON level (JObj kvs) = ''{'' @ mid @ items @ post @ ''}''"
      using False by (simp add: mid_def post_def items_def)
    have "length items + 2 \<le> fuel"
      using 6(2) unfolding ser by simp
    then obtain f where f: "fuel = Suc f" and len: "length items < f"
      by (cases fuel) simp_all
    obtain k' v' kvs' where kvs: "kvs = (k', v') # kvs'" using False by (cases kvs) auto
    have "items = (quoteJSONString k' @ '': '' @ serializeJSON (level + 1) v') @
        (if kvs' = [] then [] else ('','' @ mid) @ joinWith ('','' @ mid) (serializeMembers (level + 1) kvs'))"
      by (simp add: items_def kvs joinWith_Cons serializeMembers_Nil)
    then obtain tail where tail: "items = CHR 0x22 # tail"
      by (auto simp: quoteJSONString_def)
    have "parseMembers f (mid @ items @ post @ ''}'' @ rest) = Some (kvs, rest)"
      unfolding items_def
      using 6(1) [OF False False _ ws(1) ws(1) ws(2), of f rest] len
      by (simp add: items_def)
    then have "parseMembers f (mid @ (CHR 0x22 # tail @ post @ ''}'' @ rest)) = Some (kvs, rest)"
      by (simp add: tail)
    from parseValue_object [OF 6(4) ws(1) refl this]
    show ?thesis unfolding ser f by (simp add: tail)
  qed
next
  case (7 level)
  then show ?case by simp
next
  case (8 level v vs)
  from 8(4) obtain f where f: "fuel = Suc f" by (cases fuel) simp_all
  show ?case
  proof (cases "vs = []")
    case True
    have "length (serializeJSON level v) \<le> f"
      using 8(4) True f by simp
    from 8(1) [OF this numEnd_close [OF 8(7)] 8(5), of "CHR '']''" rest]
    have "parseValue f (pre @ serializeJSON level v @ post @ CHR '']'' # rest) =
        Some (v, post @ CHR '']'' # rest)" by simp
    from parseItems_last [OF this 8(7)] show ?thesis
      by (simp add: True f)
  next
    case False
    then have ne: "serializeItems level vs \<noteq> []" by (simp add: serializeItems_Nil)
    define more where "more = joinWith ('','' @ mid) (serializeItems level vs)"
    have join: "joinWith ('','' @ mid) (serializeItems level (v # vs)) =
        serializeJSON level v @ ('','' @ mid) @ more"
      using ne by (simp add: joinWith_Cons more_def)
    have "length (serializeJSON level v @ ('','' @ mid) @ more) < Suc f"
      using 8(4) unfolding join f .
    then have l1: "length (serializeJSON level v) \<le> f" and l2: "length more < f"
      using serializeJSON_length [of level v] by simp_all
    from 8(1) [OF l1 numEnd_comma 8(5), of "mid @ more @ post @ '']'' @ rest"]
    have a: "parseValue f (pre @ serializeJSON level v @ CHR '','' # mid @ more @ post @ '']'' @ rest) =
        Some (v, CHR '','' # mid @ more @ post @ '']'' @ rest)" by simp
    have b: "parseItems f (mid @ more @ post @ '']'' @ rest) = Some (vs, rest)"
      unfolding more_def
      using 8(2) [OF False _ 8(6) 8(6) 8(7), of f rest] l2 by (simp add: more_def)
    from parseItems_more [OF a b] show ?thesis
      unfolding join f by simp
  qed
next
  case (9 level)
  then show ?case by simp
next
  case (10 level k v kvs)
  from 10(4) obtain f where f: "fuel = Suc f" by (cases fuel) simp_all
  show ?case
  proof (cases "kvs = []")
    case True
    have "length (serializeJSON level v) \<le> f"
      using 10(4) True f by simp
    from 10(1) [OF this numEnd_close [OF 10(7)] isWs_space, of "CHR ''}''" rest]
    have "parseValue f ('' '' @ serializeJSON level v @ post @ CHR ''}'' # rest) =
        Some (v, post @ CHR ''}'' # rest)" by simp
    from parseMembers_last [OF 10(5) this 10(7)] show ?thesis
      by (simp add: True f)
  next
    case False
    then have ne: "serializeMembers level kvs \<noteq> []" by (simp add: serializeMembers_Nil)
    define more where "more = joinWith ('','' @ mid) (serializeMembers level kvs)"
    have join: "joinWith ('','' @ mid) (serializeMembers level ((k, v) # kvs)) =
        (quoteJSONString k @ '': '' @ serializeJSON level v) @ ('','' @ mid) @ more"
      using ne by (simp add: joinWith_Cons more_def)
    have "length ((quoteJSONString k @ '': '' @ serializeJSON level v) @ ('','' @ mid) @ more) < Suc f"
      using 10(4) unfolding join f .
    then have l1: "length (serializeJSON level v) \<le> f" and l2: "length more < f"
      by (simp_all add: quoteJSONString_def)
    from 10(1) [OF l1 numEnd_comma isWs_space, of "mid @ more @ post @ ''}'' @ rest"]
    have a: "parseValue f ('' '' @ serializeJSON level v @ CHR '','' # mid @ more @ post @ ''}'' @ rest) =
        Some (v, CHR '','' # mid @ more @ post @ ''}'' @ rest)" by simp
    have b: "parseMembers f (mid @ more @ post @ ''}'' @ rest) = Some (kvs, rest)"
      unfolding more_def
      using 10(2) [OF False _ 10(6) 10(6) 10(7), of f rest] l2 by (simp add: more_def)
    from parseMembers_more [OF 10(5) a b] show ?thesis
      unfolding join f by simp
  qed
qed

lemma numEnd_Nil: "numEnd []"
  by (simp add: numEnd_def)

lemma JSON_parse_stringify: "JSON_parse (JSON_stringify v) = Some v"
proof -
  have "parseValue (Suc (length (serializeJSON 0 v))) ([] @ serializeJSON 0 v @ []) = Some (v, [])"
    by (rule parse_serialize(1)) (simp_all add: numEnd_Nil)
  then show ?thesis
    by (simp add: JSON_parse_def JSON_stringify_def skipWs_def)
qed

section \<open>The export document\<close>

lemma parse_export:
  "JSON_parse (exportSessionToJson now session_id session messages topology) =
     Some (sessionData now session_id session messages topology)"
  by (simp add: exportSessionToJson_def JSON_parse_stringify)

lemma field_messageData:
  "field ''id'' (messageData m) = Some (JStr (id_m m))"
  "field ''role'' (messageData m) = Some (JStr (role m))"
  "field ''content'' (messageData m) = Some (JStr (content m))"
  "field ''timestamp'' (messageData m) = Some (JStr (createdAt m))"
  by (simp_all add: field_def messageData_def)

lemma field_sessionData:
  "field ''messages'' (sessionData now session_id session messages topology) =
     Some (JArr (map messageData messages))"
  "getPath [''topology'', ''pattern''] (sessionData now session_id session messages topology) =
     Some (JStr (pattern topology))"
  "getPath [''metadata'', ''participant_count'']
     (sessionData now session_id session messages topology) = Some (JNum 2)"
  "getPath [''metadata'', ''total_messages'']
     (sessionData now session_id session messages topology) = Some (JNum (int (length messages)))"
  by (simp_all add: field_def sessionData_def topologyData_def)

text \<open>
  C9. For every clock reading, session identifier, session, message list and topology,
  the text produced by \<open>exportSessionToJson\<close> parses; the parsed document has a
  \<open>messages\<close> array whose entries carry, message by message and in order, the
  \<open>id\<close>, \<open>role\<close>, \<open>content\<close> and \<open>timestamp\<close> (\<open>createdAt\<close>) of the input
  messages; its \<open>topology.pattern\<close> is the pattern of the input topology; and its
  metadata has \<open>participant_count\<close> 2 and \<open>total_messages\<close> the length of the message
  list.
\<close>

theorem export_roundtrip:
  "\<exists>doc msgs.
     JSON_parse (exportSessionToJson now session_id session messages topology) = Some doc \<and>
     field ''messages'' doc = Some (JArr msgs) \<and>
     map (field ''id'') msgs = map (\<lambda>m. Some (JStr (id_m m))) messages \<and>
     map (field ''role'') msgs = map (\<lambda>m. Some (JStr (role m))) messages \<and>
     map (field ''content'') msgs = map (\<lambda>m. Some (JStr (content m))) messages \<and>
     map (field ''timestamp'') msgs = map (\<lambda>m. Some (JStr (createdAt m))) messages \<and>
     getPath [''topology'', ''pattern''] doc = Some (JStr (pattern topology)) \<and>
     getPath [''metadata'', ''participant_count''] doc = Some (JNum 2) \<and>
     getPath [''metadata'', ''total_messages''] doc = Some (JNum (int (length messages)))"
proof (intro exI conjI)
  show "JSON_parse (exportSessionToJson now session_id session messages topology) =
      Some (sessionData now session_id session messages topology)"
    by (rule parse_export)
  show "field ''messages'' (sessionData now session_id session messages topology) =
      Some (JArr (map messageData messages))"
    by (rule field_sessionData)
qed (simp_all add: field_messageData field_sessionData del: getPath.simps)



end
